theory Spec2Isabelle
  imports Main "HOL-Library.Word" "HOL-Library.AList"
begin

section \<open>The transfer cache (packages/adapters/cache/src/lib/caches/transfers.ts)\<close>

text \<open>
  The cache keeps four Redis hashes and one publish/subscribe channel. A hash is a
  partial map from field names to values; the JSON text stored in a field is modelled
  by the value it is parsed back to. \<open>null\<close>, \<open>undefined\<close> and an
  absent property are all \<open>None\<close>: \<open>JSON.stringify\<close> leaves an undefined
  property out, and every test the code makes on a sub-record (\<open>x?.transactionHash\<close>,
  \<open>v != null\<close>) treats the three alike.
\<close>

subsection \<open>Data\<close>

text \<open>
  Modelled from the spec: the type \<open>XTransfer\<close> is declared in @connext/nxtp-utils,
  which is not part of the sources at hand. The record keeps the properties that
  \<open>storeTransfers\<close> reads: the id, the origin domain, the nonce and the three
  sub-records, each of which carries a transaction hash when present.
\<close>

record subrecord =
  transactionHash :: string

record xtransfer =
  transferId :: string
  originDomain :: string
  nonce :: nat
  xcall :: "subrecord option"
  execute :: "subrecord option"
  reconcile :: "subrecord option"

datatype message = NewHighestNonce string nat

record cache =
  transfers :: "string \<rightharpoonup> xtransfer"
  pending :: "string \<rightharpoonup> string list"
  latestNonce :: "string \<rightharpoonup> nat"
  errors :: "string \<rightharpoonup> string list"
  published :: "message list"

definition emptyCache :: cache where
  "emptyCache = \<lparr>transfers = Map.empty, pending = Map.empty, latestNonce = Map.empty,
     errors = Map.empty, published = []\<rparr>"

subsection \<open>Readers\<close>

definition getLatestNonce :: "cache \<Rightarrow> string \<Rightarrow> nat" where
  "getLatestNonce c domain = (case latestNonce c domain of Some n \<Rightarrow> n | None \<Rightarrow> 0)"

definition getTransfer :: "cache \<Rightarrow> string \<Rightarrow> xtransfer option" where
  "getTransfer c tid = transfers c tid"

definition getPending :: "cache \<Rightarrow> string \<Rightarrow> string list" where
  "getPending c domain = (case pending c domain of Some ids \<Rightarrow> ids | None \<Rightarrow> [])"

definition getErrors :: "cache \<Rightarrow> string \<Rightarrow> string list" where
  "getErrors c tid = (case errors c tid of Some es \<Rightarrow> es | None \<Rightarrow> [])"

subsection \<open>The pending index\<close>

definition addPending :: "cache \<Rightarrow> string \<Rightarrow> string \<Rightarrow> cache" where
  "addPending c domain tid =
     (let currentPending = getPending c domain in
      if tid \<in> set currentPending then c
      else c\<lparr>pending := (pending c)(domain \<mapsto> currentPending @ [tid])\<rparr>)"

text \<open>
  \<open>findIndex\<close> returns the first position of the id and \<open>splice(index, 1)\<close>
  deletes that one entry, which is \<open>remove1\<close>. The boolean tells whether an
  entry was deleted.
\<close>

definition removePending :: "cache \<Rightarrow> string \<Rightarrow> string \<Rightarrow> bool \<times> cache" where
  "removePending c domain tid =
     (let currentPending = getPending c domain in
      if tid \<in> set currentPending
      then (True, c\<lparr>pending := (pending c)(domain \<mapsto> remove1 tid currentPending)\<rparr>)
      else (False, c))"

subsection \<open>Collating an update with the stored record\<close>

text \<open>The test \<open>x?.transactionHash\<close>: the sub-record is there and its hash is
  not the empty string.\<close>

definition hasHash :: "subrecord option \<Rightarrow> bool" where
  "hasHash s = (case s of None \<Rightarrow> False | Some r \<Rightarrow> transactionHash r \<noteq> [])"

text \<open>
  Modelled from the spec: \<open>sanitizeNull\<close> comes from the cache helpers, which are
  not part of the sources at hand. By the spec it drops the properties whose value is
  null, so that in \<open>{...sanitizeNull(existing), ...sanitizeNull(transfer)}\<close> a
  property takes the incoming value when that is not null and keeps the existing value
  otherwise. \<open>spreadField\<close> is this rule for one property.
\<close>

definition spreadField :: "'a option \<Rightarrow> 'a option \<Rightarrow> 'a option" where
  "spreadField existing incoming = (case incoming of None \<Rightarrow> existing | Some v \<Rightarrow> Some v)"

text \<open>The id, the origin domain and the nonce are never null in an \<open>XTransfer\<close>,
  so the incoming values win for them.\<close>

definition collate :: "xtransfer \<Rightarrow> xtransfer \<Rightarrow> xtransfer" where
  "collate existing transfer =
     \<lparr>transferId = transferId transfer,
      originDomain = originDomain transfer,
      nonce = nonce transfer,
      xcall = spreadField (xcall existing) (xcall transfer),
      execute = spreadField (execute existing) (execute transfer),
      reconcile = spreadField (reconcile existing) (reconcile transfer)\<rparr>"

subsection \<open>storeTransfers\<close>

text \<open>
  The state of the first loop: the cache and the two local objects. The object
  \<open>highestNonceByDomain\<close> is an association list, since the second loop walks
  its entries; \<open>AList.update\<close> overwrites a key in place and appends a new one,
  as property assignment does. (JavaScript lists integer-like keys in ascending
  numeric order before the others; the list here keeps insertion order, so only
  the order of the published messages may differ.)
\<close>

record store_loop =
  data :: cache
  highestNonceByDomain :: "(string \<times> nat) list"
  nonceDidIncreaseForDomain :: "string \<rightharpoonup> bool"

text \<open>
  One turn of the loop over the batch, in the three steps of the source.

  Lines 72 to 90: the record is written and the pending index follows. \<open>hset\<close>
  returns 1 when the field is new in the hash, so \<open>added\<close> holds iff no record
  was stored under the id.
\<close>

definition persistTransfer :: "cache \<Rightarrow> xtransfer \<Rightarrow> cache" where
  "persistTransfer c transfer =
     (let tid = transferId transfer;
          origin = originDomain transfer;
          added = (transfers c tid = None);
          c1 = c\<lparr>transfers := (transfers c)(tid \<mapsto> transfer)\<rparr>
      in if added \<and> hasHash (xcall transfer) \<and> \<not> hasHash (execute transfer)
              \<and> \<not> hasHash (reconcile transfer)
         then addPending c1 origin tid
         else if hasHash (execute transfer) \<or> hasHash (reconcile transfer)
         then snd (removePending c1 origin tid)
         else c1)"

text \<open>
  Lines 92 to 104: the highest nonce of the origin domain in this call. The test
  \<open>!currentNonce\<close> holds for \<open>undefined\<close> and for 0; the watermark is then
  read from the cache and the domain is flagged.
\<close>

definition trackNonce :: "string \<Rightarrow> nat \<Rightarrow> store_loop \<Rightarrow> store_loop" where
  "trackNonce origin n st =
     (let h0 = highestNonceByDomain st;
          d0 = nonceDidIncreaseForDomain st;
          recorded = map_of h0 origin;
          missing = (recorded = None \<or> recorded = Some 0);
          currentNonce = (if missing then getLatestNonce (data st) origin
                          else (case recorded of Some k \<Rightarrow> k | None \<Rightarrow> 0));
          h1 = (if missing then AList.update origin currentNonce h0 else h0);
          d1 = (if missing then d0(origin \<mapsto> True) else d0);
          h2 = (if n > currentNonce then AList.update origin n h1 else h1);
          d2 = (if n > currentNonce then d1(origin \<mapsto> True) else d1)
      in st\<lparr>highestNonceByDomain := h2, nonceDidIncreaseForDomain := d2\<rparr>)"

text \<open>
  Lines 63 to 105: an update equal to the stored record is skipped; otherwise it is
  collated with the stored record, if there is one, and the two steps above run on
  the result. The source compares the JSON texts of the update and of the stored
  record; the model compares the two records. A pair that differs only in the order
  of its properties, or in a property the record type leaves out, is equal here and
  not in the source, which then collates the two, stores the same sub-records again
  and runs the nonce step. No evaluation below runs on such a pair.
\<close>

definition storeTransfers_body :: "xtransfer \<Rightarrow> store_loop \<Rightarrow> store_loop" where
  "storeTransfers_body incoming st =
     (let existing = getTransfer (data st) (transferId incoming)
      in if existing = Some incoming then st
         else
           let transfer = (case existing of Some e \<Rightarrow> collate e incoming | None \<Rightarrow> incoming)
           in trackNonce (originDomain transfer) (nonce transfer)
                (st\<lparr>data := persistTransfer (data st) transfer\<rparr>))"

text \<open>The second loop: write the watermark and publish, for every entry that is flagged.\<close>

fun publishNonces :: "(string \<times> nat) list \<Rightarrow> (string \<rightharpoonup> bool) \<Rightarrow> cache \<Rightarrow> cache" where
  "publishNonces [] did c = c"
| "publishNonces ((domain, n) # rest) did c =
     publishNonces rest did
       (if did domain = Some True
        then c\<lparr>latestNonce := (latestNonce c)(domain \<mapsto> n),
               published := published c @ [NewHighestNonce domain n]\<rparr>
        else c)"

definition storeTransfers :: "cache \<Rightarrow> xtransfer list \<Rightarrow> cache" where
  "storeTransfers c batch =
     (let st = fold storeTransfers_body batch
                 \<lparr>data = c, highestNonceByDomain = [], nonceDidIncreaseForDomain = Map.empty\<rparr>
      in publishNonces (highestNonceByDomain st) (nonceDidIncreaseForDomain st) (data st))"

text \<open>A sequence of calls, oldest first.\<close>

definition storeAll :: "cache \<Rightarrow> xtransfer list list \<Rightarrow> cache" where
  "storeAll c calls = fold (\<lambda>batch c'. storeTransfers c' batch) calls c"

text \<open>The messages a call published: those behind the ones that were there before.\<close>

definition publishedBy :: "cache \<Rightarrow> cache \<Rightarrow> message list" where
  "publishedBy before after = drop (length (published before)) (published after)"

subsection \<open>The pending state and the runs the index is checked on\<close>



text \<open>The cache after one turn of the first loop of \<open>storeTransfers\<close>.\<close>

definition storeOne :: "cache \<Rightarrow> xtransfer \<Rightarrow> cache" where
  "storeOne c t =
     data (storeTransfers_body t
       \<lparr>data = c, highestNonceByDomain = [], nonceDidIncreaseForDomain = Map.empty\<rparr>)"





text \<open>
  The invariant of the first loop for the watermark: the loop leaves the stored
  watermarks of the cache \<open>c0\<close> it started from alone, and every nonce it has
  recorded for a domain is at least the stored watermark of that domain.
\<close>

definition noncesAbove :: "cache \<Rightarrow> store_loop \<Rightarrow> bool" where
  "noncesAbove c0 st =
     (latestNonce (data st) = latestNonce c0
      \<and> (\<forall>(d, k) \<in> set (highestNonceByDomain st). getLatestNonce c0 d \<le> k))"

subsection \<open>The error ledger\<close>

text \<open>
  \<open>JSON.stringify\<close> of a string: the text between double quotes, with the quote,
  the backslash and the control characters escaped. A \<open>char\<close> is a byte; bytes
  from 0x20 on, other than the quote and the backslash, stand for themselves.
\<close>

definition hexDigit :: "nat \<Rightarrow> char" where
  "hexDigit n = ''0123456789abcdef'' ! (n mod 16)"

definition quoteJSONChar :: "char \<Rightarrow> string" where
  "quoteJSONChar ch =
     (let n = (of_char ch :: nat) in
      if n = 0x22 then [CHR 0x5C, CHR 0x22]
      else if n = 0x5C then [CHR 0x5C, CHR 0x5C]
      else if n = 0x08 then [CHR 0x5C, CHR ''b'']
      else if n = 0x0C then [CHR 0x5C, CHR ''f'']
      else if n = 0x0A then [CHR 0x5C, CHR ''n'']
      else if n = 0x0D then [CHR 0x5C, CHR ''r'']
      else if n = 0x09 then [CHR 0x5C, CHR ''t'']
      else if n < 0x20
      then [CHR 0x5C, CHR ''u'', CHR ''0'', CHR ''0'', hexDigit (n div 16), hexDigit n]
      else [ch])"

definition stringifyString :: "string \<Rightarrow> string" where
  "stringifyString s = CHR 0x22 # concat (map quoteJSONChar s) @ [CHR 0x22]"

definition saveError :: "cache \<Rightarrow> string \<Rightarrow> string \<Rightarrow> bool \<times> cache" where
  "saveError c tid err =
     (let stringified = stringifyString err;
          currentErrors = getErrors c tid;
          isNewError = (stringified \<notin> set currentErrors)
      in (isNewError,
          if isNewError then c\<lparr>errors := (errors c)(tid \<mapsto> currentErrors @ [err])\<rparr> else c))"

section \<open>The root manager (contracts/core/messaging/RootManager.sol)\<close>

text \<open>
  A call either returns the new storage or reverts with a failure. Solidity 0.8.15
  checks arithmetic and array bounds: an overflow or underflow is \<open>Panic 0x11\<close>,
  an index out of range \<open>Panic 0x32\<close>.
\<close>

type_synonym address = "160 word"
type_synonym uint32 = "32 word"
type_synonym uint256 = "256 word"
type_synonym bytes32 = "256 word"
type_synonym bytes = "8 word list"

datatype failure = Require string | Panic nat | CustomError string

datatype event =
    OutboundRootUpdated uint32 bytes32
  | ConnectorAdded uint32 address
  | ConnectorRemoved uint32 address
  | WatcherAdded address
  | WatcherRemoved address

text \<open>
  The storage of the contract. A mapping reads as zero (or false) where nothing was
  written. The field \<open>owner\<close> stands for the owner that the inherited
  ProposedOwnable keeps; the constructor sets it to the deployer.
\<close>

record root_manager =
  owner :: address
  connectors :: "uint32 \<Rightarrow> address"
  outboundRoots :: "uint32 \<Rightarrow> bytes32"
  domains :: "uint32 list"
  watchers :: "address \<Rightarrow> bool"
  emitted :: "event list"

definition RootManager_constructor :: "address \<Rightarrow> root_manager" where
  "RootManager_constructor sender =
     \<lparr>owner = sender, connectors = (\<lambda>_. 0), outboundRoots = (\<lambda>_. 0), domains = [],
      watchers = (\<lambda>_. False), emitted = []\<rparr>"

text \<open>A transaction: a call that reverts leaves the storage as it was.\<close>

definition transact :: "('s \<Rightarrow> failure + 's) \<Rightarrow> 's \<Rightarrow> failure option \<times> 's" where
  "transact f s = (case f s of Inl e \<Rightarrow> (Some e, s) | Inr s' \<Rightarrow> (None, s'))"

subsection \<open>Modifiers\<close>

text \<open>A modifier wraps the body of the function: the body runs where the source has
  its placeholder, after the check.\<close>

definition onlyWatcher :: "root_manager \<Rightarrow> address \<Rightarrow> failure + 'a \<Rightarrow> failure + 'a" where
  "onlyWatcher s sender body = (if watchers s sender then body else Inl (Require ''!watcher''))"

definition onlyConnector :: "root_manager \<Rightarrow> address \<Rightarrow> uint32 \<Rightarrow> failure + 'a \<Rightarrow> failure + 'a" where
  "onlyConnector s sender domain body =
     (if connectors s domain = sender then body else Inl (Require ''!connector''))"

text \<open>
  Modelled from the spec: the modifier \<open>onlyOwner\<close> is declared in
  ProposedOwnable.sol, which is not part of the sources at hand. By the spec the
  administrative operations are for the owner only, so the modifier rejects every
  other caller.
\<close>

definition onlyOwner :: "root_manager \<Rightarrow> address \<Rightarrow> failure + 'a \<Rightarrow> failure + 'a" where
  "onlyOwner s sender body =
     (if owner s = sender then body else Inl (CustomError ''ProposedOwnable__onlyOwner_notOwner''))"

subsection \<open>propagate\<close>

text \<open>\<open>abi.encodePacked\<close> of a \<open>bytes32\<close>: its 32 bytes, the most significant first.\<close>

definition encodePacked :: "bytes32 \<Rightarrow> bytes" where
  "encodePacked r = map (\<lambda>i. ucast (drop_bit (8 * (31 - i)) r)) [0..<32]"

text \<open>
  The calls that \<open>propagate\<close> makes to the connectors, in order. The connectors
  are other contracts: the model records each call and takes it to return without
  calling back into the root manager. The counter is a \<open>uint8\<close>, so the increment
  at 255 overflows and the call reverts.
\<close>

datatype external_call = PropagateRoot address bytes

function propagate_loop :: "root_manager \<Rightarrow> bytes \<Rightarrow> nat \<Rightarrow> external_call list \<Rightarrow> failure + external_call list" where
  "propagate_loop s aggregate i calls =
     (if i < length (domains s)
      then (let connector = connectors s (domains s ! i);
                calls' = (if connector \<noteq> 0 then calls @ [PropagateRoot connector aggregate] else calls)
            in if 255 \<le> i then Inl (Panic 0x11)
               else propagate_loop s aggregate (i + 1) calls')
      else Inr calls)"
  by pat_completeness auto
termination
  by (relation "measure (\<lambda>(s, aggregate, i, calls). length (domains s) - i)") auto

declare propagate_loop.simps [simp del]

definition propagate :: "root_manager \<Rightarrow> failure + external_call list" where
  "propagate s =
     (if domains s = [] then Inl (Panic 0x32)
      else propagate_loop s (encodePacked (outboundRoots s (domains s ! 0))) 0 [])"

subsection \<open>setOutboundRoot and the administrative functions\<close>

definition setOutboundRoot :: "root_manager \<Rightarrow> address \<Rightarrow> uint32 \<Rightarrow> bytes32 \<Rightarrow> failure + root_manager" where
  "setOutboundRoot s sender domain outbound =
     onlyConnector s sender domain
       (Inr (s\<lparr>outboundRoots := (outboundRoots s)(domain := outbound),
               emitted := emitted s @ [OutboundRootUpdated domain outbound]\<rparr>))"

definition addConnector :: "root_manager \<Rightarrow> address \<Rightarrow> uint32 \<Rightarrow> address \<Rightarrow> failure + root_manager" where
  "addConnector s sender domain connector =
     onlyOwner s sender
       (Inr (s\<lparr>connectors := (connectors s)(domain := connector),
               domains := domains s @ [domain],
               emitted := emitted s @ [ConnectorAdded domain connector]\<rparr>))"

definition addWatcher :: "root_manager \<Rightarrow> address \<Rightarrow> address \<Rightarrow> failure + root_manager" where
  "addWatcher s sender watcher =
     onlyOwner s sender
       (Inr (s\<lparr>watchers := (watchers s)(watcher := True),
               emitted := emitted s @ [WatcherAdded watcher]\<rparr>))"

definition removeWatcher :: "root_manager \<Rightarrow> address \<Rightarrow> address \<Rightarrow> failure + root_manager" where
  "removeWatcher s sender watcher =
     onlyOwner s sender
       (Inr (s\<lparr>watchers := (watchers s)(watcher := False),
               emitted := emitted s @ [WatcherRemoved watcher]\<rparr>))"

text \<open>
  The loop of \<open>removeConnector\<close>: the first entry equal to the domain is
  overwritten with the last entry and the loop breaks. Its counter is a \<open>uint8\<close> too.
\<close>

function removeConnector_loop :: "uint32 \<Rightarrow> uint32 \<Rightarrow> uint32 list \<Rightarrow> nat \<Rightarrow> failure + uint32 list" where
  "removeConnector_loop domain last_d ds i =
     (if i < length ds
      then (if ds ! i = domain then Inr (ds[i := last_d])
            else if 255 \<le> i then Inl (Panic 0x11)
            else removeConnector_loop domain last_d ds (i + 1))
      else Inr ds)"
  by pat_completeness auto
termination
  by (relation "measure (\<lambda>(domain, last_d, ds, i). length ds - i)") auto

declare removeConnector_loop.simps [simp del]

text \<open>\<open>domains.length - 1\<close> underflows on the empty list; \<open>pop\<close> drops the last entry.\<close>

definition removeConnector :: "root_manager \<Rightarrow> address \<Rightarrow> uint32 \<Rightarrow> failure + root_manager" where
  "removeConnector s sender domain =
     onlyWatcher s sender
       (let connector = connectors s domain;
            s1 = s\<lparr>connectors := (connectors s)(domain := 0)\<rparr>
        in if domains s1 = [] then Inl (Panic 0x11)
           else (let last_d = domains s1 ! (length (domains s1) - 1)
                 in case removeConnector_loop domain last_d (domains s1) 0 of
                      Inl e \<Rightarrow> Inl e
                    | Inr ds \<Rightarrow>
                        Inr (s1\<lparr>domains := butlast ds,
                                emitted := emitted s1 @ [ConnectorRemoved domain connector]\<rparr>)))"

section \<open>The Gnosis connectors (contracts/core/messaging/connectors/GnosisConnector.sol)\<close>

text \<open>What the bridge contract at \<open>AMB\<close> answers while it delivers a message.\<close>

record gnosis_bridge =
  messageSender :: address
  sourceChainId :: uint256
  destinationChainId :: uint256

text \<open>
  Modelled from the spec: the storage of a connector is declared in Connector.sol,
  which is not part of the sources at hand. The record keeps what the Gnosis
  connectors read (the bridge, the root manager, the mirror connector and its
  domain) and the aggregate root that a spoke stores; \<open>this\<close> is the connector's
  own address.
\<close>

record connector =
  this :: address
  AMB :: address
  ROOT_MANAGER :: address
  mirrorConnector :: address
  mirrorDomain :: uint32
  aggregateRoot :: bytes32

record call_env =
  msg_sender :: address
  block_chainid :: uint256
  bridge :: gnosis_bridge

text \<open>
  Modelled from the spec: \<open>update\<close> is a function of Connector.sol; by the spec it
  stores the payload as the domain's newly propagated aggregate root.
\<close>

definition update :: "connector \<Rightarrow> bytes32 \<Rightarrow> connector" where
  "update c newRoot = c\<lparr>aggregateRoot := newRoot\<rparr>"

text \<open>The conversion \<open>bytes32(_data)\<close>: the first 32 bytes, padded with zeros on the right.\<close>

definition toBytes32 :: "bytes \<Rightarrow> bytes32" where
  "toBytes32 data_bytes =
     foldl (\<lambda>acc b. or (push_bit 8 acc) (ucast b)) 0 (take 32 (data_bytes @ replicate 32 0))"

definition verifySender :: "connector \<Rightarrow> call_env \<Rightarrow> address \<Rightarrow> failure + bool" where
  "verifySender c env expected =
     (if msg_sender env = AMB c then Inr (messageSender (bridge env) = expected)
      else Inl (Require ''!bridge''))"

definition GnosisL2_processMessage :: "connector \<Rightarrow> call_env \<Rightarrow> bytes \<Rightarrow> failure + connector" where
  "GnosisL2_processMessage c env data_bytes =
     (case verifySender c env (mirrorConnector c) of
        Inl e \<Rightarrow> Inl e
      | Inr verified \<Rightarrow>
          if \<not> verified then Inl (Require ''!l1Connector'')
          else if destinationChainId (bridge env) \<noteq> block_chainid env then Inl (Require ''!destinationChain'')
          else if sourceChainId (bridge env) \<noteq> 1 then Inl (Require ''!sourceChainId'')
          else Inr (update c (toBytes32 data_bytes)))"

text \<open>
  On the hub the payload is forwarded to the root manager, which sees the connector
  as the caller. The connector's own storage is not written; the result is the
  storage of the root manager.
\<close>

definition GnosisL1_processMessage :: "connector \<Rightarrow> root_manager \<Rightarrow> call_env \<Rightarrow> bytes \<Rightarrow> failure + root_manager" where
  "GnosisL1_processMessage c rm env data_bytes =
     (case verifySender c env (mirrorConnector c) of
        Inl e \<Rightarrow> Inl e
      | Inr verified \<Rightarrow>
          if \<not> verified then Inl (Require ''!l2Connector'')
          else if destinationChainId (bridge env) \<noteq> block_chainid env then Inl (Require ''!destinationChain'')
          else if sourceChainId (bridge env) \<noteq> 100 then Inl (Require ''!sourceChainId'')
          else if length data_bytes \<noteq> 32 then Inl (Require ''!length'')
          else setOutboundRoot rm (this c) (mirrorDomain c) (toBytes32 data_bytes))"

section \<open>Concrete inputs\<close>

text \<open>Records and contract states that the evaluations below run on.\<close>

abbreviation tx :: "string \<Rightarrow> subrecord option" where
  "tx h \<equiv> Some \<lparr>transactionHash = h\<rparr>"

abbreviation transferA_bare :: xtransfer where
  "transferA_bare \<equiv> \<lparr>transferId = ''0xa1'', originDomain = ''1337'', nonce = 5,
     xcall = None, execute = None, reconcile = None\<rparr>"

abbreviation transferA_xcall :: xtransfer where
  "transferA_xcall \<equiv> \<lparr>transferId = ''0xa1'', originDomain = ''1337'', nonce = 5,
     xcall = tx ''0x01'', execute = None, reconcile = None\<rparr>"

abbreviation transferA_execute :: xtransfer where
  "transferA_execute \<equiv> \<lparr>transferId = ''0xa1'', originDomain = ''1337'', nonce = 5,
     xcall = None, execute = tx ''0x02'', reconcile = None\<rparr>"

abbreviation transferA_both :: xtransfer where
  "transferA_both \<equiv> \<lparr>transferId = ''0xa1'', originDomain = ''1337'', nonce = 5,
     xcall = tx ''0x01'', execute = tx ''0x02'', reconcile = None\<rparr>"

abbreviation transferB_xcall :: xtransfer where
  "transferB_xcall \<equiv> \<lparr>transferId = ''0xb2'', originDomain = ''1337'', nonce = 3,
     xcall = tx ''0x03'', execute = None, reconcile = None\<rparr>"

text \<open>Caches reached from the empty one by the calls named in the lemmas further down.\<close>

abbreviation pendingA :: cache where
  "pendingA \<equiv> \<lparr>transfers = [''0xa1'' \<mapsto> transferA_xcall], pending = [''1337'' \<mapsto> [''0xa1'']],
     latestNonce = [''1337'' \<mapsto> 5], errors = Map.empty,
     published = [NewHighestNonce ''1337'' 5]\<rparr>"

abbreviation executedA :: cache where
  "executedA \<equiv> \<lparr>transfers = [''0xa1'' \<mapsto> transferA_both], pending = [''1337'' \<mapsto> []],
     latestNonce = [''1337'' \<mapsto> 5], errors = Map.empty,
     published = [NewHighestNonce ''1337'' 5, NewHighestNonce ''1337'' 5]\<rparr>"


text \<open>A hub deployed by account 1 with the given connectors, roots, domains and watcher 9.\<close>

abbreviation hub :: "(uint32 \<Rightarrow> address) \<Rightarrow> (uint32 \<Rightarrow> bytes32) \<Rightarrow> uint32 list \<Rightarrow> root_manager" where
  "hub cs roots ds \<equiv> \<lparr>owner = 1, connectors = cs, outboundRoots = roots, domains = ds,
     watchers = (\<lambda>a. a = 9), emitted = []\<rparr>"

abbreviation spoke :: connector where
  "spoke \<equiv> \<lparr>this = 0xC2, AMB = 0xA, ROOT_MANAGER = 0xF, mirrorConnector = 0xC1,
     mirrorDomain = 7, aggregateRoot = 0x11\<rparr>"

abbreviation forged_delivery :: call_env where
  "forged_delivery \<equiv> \<lparr>msg_sender = 0xA, block_chainid = 100,
     bridge = \<lparr>messageSender = 0xBAD, sourceChainId = 1, destinationChainId = 100\<rparr>\<rparr>"

section \<open>Properties of the transfer cache\<close>

subsection \<open>Auxiliary facts\<close>

lemmas cache_eval = storeAll_def storeTransfers_def storeTransfers_body_def persistTransfer_def
  trackNonce_def Let_def getTransfer_def
  getPending_def getLatestNonce_def addPending_def removePending_def hasHash_def collate_def
  spreadField_def emptyCache_def publishedBy_def

lemma hasHash_None [simp]: "hasHash None = False"
  by (simp add: hasHash_def)

lemma getPending_transfers_update [simp]:
  "getPending (c\<lparr>transfers := m\<rparr>) D = getPending c D"
  by (simp add: getPending_def)





lemma transfers_addPending [simp]: "transfers (addPending c d t) = transfers c"
  by (simp add: addPending_def Let_def)

lemma transfers_removePending [simp]: "transfers (snd (removePending c d t)) = transfers c"
  by (simp add: removePending_def Let_def)

lemma transfers_publishNonces [simp]: "transfers (publishNonces h did c) = transfers c"
  by (induction h did c rule: publishNonces.induct) auto

lemma pending_publishNonces [simp]: "pending (publishNonces h did c) = pending c"
  by (induction h did c rule: publishNonces.induct) auto




lemma data_trackNonce [simp]: "data (trackNonce origin n st) = data st"
  by (simp add: trackNonce_def Let_def)

text \<open>What one turn of the loop does to the cache, in terms of the collated record.\<close>

lemma storeOne_unfold:
  "storeOne c t =
     (if transfers c (transferId t) = Some t then c
      else persistTransfer c (case transfers c (transferId t) of Some e \<Rightarrow> collate e t | None \<Rightarrow> t))"
  by (simp add: storeOne_def storeTransfers_body_def Let_def getTransfer_def)

lemma data_storeTransfers_body: "data (storeTransfers_body t st) = storeOne (data st) t"
  by (simp add: storeOne_unfold storeTransfers_body_def Let_def getTransfer_def)


lemma transferId_collate [simp]: "transferId (collate e t) = transferId t"
  by (simp add: collate_def)

lemma transfers_persistTransfer:
  "transfers (persistTransfer c m) = (transfers c)(transferId m \<mapsto> m)"
  by (simp add: persistTransfer_def Let_def)

lemma published_addPending [simp]: "published (addPending c d t) = published c"
  by (simp add: addPending_def Let_def)

lemma published_removePending [simp]: "published (snd (removePending c d t)) = published c"
  by (simp add: removePending_def Let_def)

lemma published_persistTransfer [simp]: "published (persistTransfer c m) = published c"
  by (simp add: persistTransfer_def Let_def)

lemma latestNonce_addPending [simp]: "latestNonce (addPending c d t) = latestNonce c"
  by (simp add: addPending_def Let_def)

lemma latestNonce_removePending [simp]: "latestNonce (snd (removePending c d t)) = latestNonce c"
  by (simp add: removePending_def Let_def)

lemma latestNonce_persistTransfer [simp]: "latestNonce (persistTransfer c m) = latestNonce c"
  by (simp add: persistTransfer_def Let_def)

lemma originDomain_collate [simp]: "originDomain (collate e t) = originDomain t"
  by (simp add: collate_def)

lemma nonce_collate [simp]: "nonce (collate e t) = nonce t"
  by (simp add: collate_def)

lemma set_update_subset: "set (AList.update k v al) \<subseteq> insert (k, v) (set al)"
  by (induction al) auto

subsection \<open>The invariant of the pending index\<close>









subsection \<open>Evaluating calls, one at a time\<close>

lemma storeAll_simps:
  "storeAll c [] = c"
  "storeAll c (batch # rest) = storeAll (storeTransfers c batch) rest"
  by (simp_all add: storeAll_def)

lemma store_xcall: "storeTransfers emptyCache [transferA_xcall] = pendingA"
  by (simp add: cache_eval)

lemma store_execute: "storeTransfers pendingA [transferA_execute] = executedA"
  by (simp add: cache_eval)

lemma store_execute_again:
  "storeTransfers executedA [transferA_execute] =
     executedA\<lparr>published := published executedA @ [NewHighestNonce ''1337'' 5]\<rparr>"
  by (simp add: cache_eval)

lemma store_lower_nonce:
  "storeTransfers pendingA [transferB_xcall] =
     \<lparr>transfers = [''0xa1'' \<mapsto> transferA_xcall, ''0xb2'' \<mapsto> transferB_xcall],
      pending = [''1337'' \<mapsto> [''0xa1'', ''0xb2'']],
      latestNonce = [''1337'' \<mapsto> 5], errors = Map.empty,
      published = [NewHighestNonce ''1337'' 5, NewHighestNonce ''1337'' 5]\<rparr>"
  by (simp add: cache_eval)







subsection \<open>The pending index\<close>




text \<open>
  The other two conditions say what the input type promises and the records of the
  model cannot: an id is derived from the content of a transfer, so its origin domain
  is fixed, and a transaction hash is not the empty string. Without the first, an
  update that names another origin domain is removed from the list of that domain,
  and the id stays in the list it was in.
\<close>

lemma changed_origin_stays_indexed:
  "getTransfer (storeTransfers pendingA [transferA_execute\<lparr>originDomain := ''1338''\<rparr>]) ''0xa1''
     = Some (transferA_both\<lparr>originDomain := ''1338''\<rparr>)
   \<and> ''0xa1'' \<in> set (getPending
        (storeTransfers pendingA [transferA_execute\<lparr>originDomain := ''1338''\<rparr>]) ''1337'')"
  by (simp add: cache_eval)

text \<open>Without the second, a record stored with an \<open>xcall\<close> whose hash is empty counts
  as having no \<open>xcall\<close> for the index.\<close>

lemma empty_hash_not_indexed:
  "getTransfer (storeTransfers emptyCache [transferA_bare\<lparr>xcall := tx ''''\<rparr>]) ''0xa1''
     = Some (transferA_bare\<lparr>xcall := tx ''''\<rparr>)
   \<and> ''0xa1'' \<notin> set (getPending
        (storeTransfers emptyCache [transferA_bare\<lparr>xcall := tx ''''\<rparr>]) ''1337'')"
  by (simp add: cache_eval)

subsection \<open>The nonce watermark and its messages\<close>

text \<open>The watermark of a domain never goes down.\<close>

lemma noncesAbove_trackNonce:
  assumes "noncesAbove c0 st"
  shows "noncesAbove c0 (trackNonce origin n st)"
proof -
  define h0 where "h0 = highestNonceByDomain st"
  define missing where "missing = (map_of h0 origin = None \<or> map_of h0 origin = Some 0)"
  define cur where "cur = (if missing then getLatestNonce (data st) origin
              else (case map_of h0 origin of Some k \<Rightarrow> k | None \<Rightarrow> 0))"
  define h1 where "h1 = (if missing then AList.update origin cur h0 else h0)"
  define h2 where "h2 = (if cur < n then AList.update origin n h1 else h1)"
  have same: "getLatestNonce (data st) d = getLatestNonce c0 d" for d
    using assms by (simp add: noncesAbove_def getLatestNonce_def)
  have old: "getLatestNonce c0 d \<le> k" if "(d, k) \<in> set h0" for d k
    using assms that by (auto simp: noncesAbove_def h0_def)
  have cur: "getLatestNonce c0 origin \<le> cur"
  proof (cases missing)
    case True
    then show ?thesis by (simp add: cur_def same)
  next
    case False
    then obtain k where k: "map_of h0 origin = Some k" by (auto simp: missing_def)
    then have "(origin, k) \<in> set h0" by (rule map_of_SomeD)
    then have "getLatestNonce c0 origin \<le> k" by (rule old)
    then show ?thesis using False k by (simp add: cur_def)
  qed
  have above1: "getLatestNonce c0 d \<le> k" if "(d, k) \<in> set h1" for d k
  proof (cases missing)
    case True
    then have "(d, k) \<in> insert (origin, cur) (set h0)"
      using that set_update_subset [of origin cur h0] by (auto simp: h1_def)
    then show ?thesis using old cur by auto
  next
    case False
    then show ?thesis using that old by (simp add: h1_def)
  qed
  have above2: "getLatestNonce c0 d \<le> k" if "(d, k) \<in> set h2" for d k
  proof (cases "cur < n")
    case True
    then have "(d, k) \<in> insert (origin, n) (set h1)"
      using that set_update_subset [of origin n h1] by (auto simp: h2_def)
    then show ?thesis using above1 cur True by auto
  next
    case False
    then show ?thesis using that above1 by (simp add: h2_def)
  qed
  have "highestNonceByDomain (trackNonce origin n st) = h2"
    by (simp add: trackNonce_def Let_def h2_def h1_def cur_def missing_def h0_def)
  moreover have "latestNonce (data (trackNonce origin n st)) = latestNonce c0"
    using assms by (simp add: noncesAbove_def)
  ultimately show ?thesis
    using above2 by (auto simp: noncesAbove_def)
qed

lemma noncesAbove_body:
  assumes "noncesAbove c0 st"
  shows "noncesAbove c0 (storeTransfers_body t st)"
proof -
  have "noncesAbove c0 (st\<lparr>data := persistTransfer (data st) m\<rparr>)" for m
    using assms by (simp add: noncesAbove_def)
  then show ?thesis
    using assms by (simp add: storeTransfers_body_def Let_def noncesAbove_trackNonce)
qed

lemma noncesAbove_fold:
  "noncesAbove c0 st \<Longrightarrow> noncesAbove c0 (fold storeTransfers_body batch st)"
  by (induction batch arbitrary: st) (simp_all add: noncesAbove_body)

lemma publishNonces_above:
  "(\<forall>(d, k) \<in> set es. base d \<le> k) \<Longrightarrow> (\<forall>d. base d \<le> getLatestNonce c d) \<Longrightarrow>
   base d \<le> getLatestNonce (publishNonces es did c) d"
proof (induction es did c rule: publishNonces.induct)
  case (1 did c)
  then show ?case by simp
next
  case (2 domain n rest did c)
  show ?case
    unfolding publishNonces.simps
  proof (rule "2.IH")
    show "\<forall>(d, k) \<in> set rest. base d \<le> k" using "2.prems"(1) by auto
    show "\<forall>d. base d \<le> getLatestNonce
        (if did domain = Some True
         then c\<lparr>latestNonce := (latestNonce c)(domain \<mapsto> n),
                published := published c @ [NewHighestNonce domain n]\<rparr>
         else c) d"
      using "2.prems" by (auto simp: getLatestNonce_def)
  qed
qed

lemma getLatestNonce_storeTransfers_mono:
  "getLatestNonce c d \<le> getLatestNonce (storeTransfers c batch) d"
proof -
  let ?st = "fold storeTransfers_body batch
     \<lparr>data = c, highestNonceByDomain = [], nonceDidIncreaseForDomain = Map.empty\<rparr>"
  have "noncesAbove c ?st"
    by (rule noncesAbove_fold) (simp add: noncesAbove_def)
  then have es: "\<forall>(d, k) \<in> set (highestNonceByDomain ?st). getLatestNonce c d \<le> k"
    and "\<forall>d. getLatestNonce c d \<le> getLatestNonce (data ?st) d"
    by (simp_all add: noncesAbove_def getLatestNonce_def)
  then show ?thesis
    unfolding storeTransfers_def Let_def
    by (intro publishNonces_above) 
qed

lemma getLatestNonce_storeAll_mono:
  "getLatestNonce c d \<le> getLatestNonce (storeAll c calls) d"
proof (induction calls arbitrary: c)
  case Nil
  then show ?case by (simp add: storeAll_simps)
next
  case (Cons batch rest)
  have "getLatestNonce c d \<le> getLatestNonce (storeTransfers c batch) d"
    by (rule getLatestNonce_storeTransfers_mono)
  also have "\<dots> \<le> getLatestNonce (storeAll (storeTransfers c batch) rest) d"
    by (rule Cons.IH)
  finally show ?case by (simp add: storeAll_simps)
qed

text \<open>A call with one update that is not skipped publishes one message, whether or
  not the watermark rises.\<close>

lemma storeTransfers_single_publishes:
  assumes "getTransfer c (transferId t) \<noteq> Some t"
  shows "publishedBy c (storeTransfers c [t]) =
     [NewHighestNonce (originDomain t) (max (getLatestNonce c (originDomain t)) (nonce t))]"
proof -
  define m where "m = (case getTransfer c (transferId t) of Some e \<Rightarrow> collate e t | None \<Rightarrow> t)"
  have m: "originDomain m = originDomain t" "nonce m = nonce t"
    by (simp_all add: m_def split: option.splits)
  define st where "st = trackNonce (originDomain t) (nonce t)
     \<lparr>data = persistTransfer c m, highestNonceByDomain = [], nonceDidIncreaseForDomain = Map.empty\<rparr>"
  have body: "storeTransfers_body t
     \<lparr>data = c, highestNonceByDomain = [], nonceDidIncreaseForDomain = Map.empty\<rparr> = st"
    using assms by (simp add: storeTransfers_body_def Let_def m_def [symmetric] m st_def)
  have cur: "getLatestNonce (persistTransfer c m) (originDomain t) = getLatestNonce c (originDomain t)"
    by (simp add: getLatestNonce_def)
  have "highestNonceByDomain st =
      [(originDomain t, max (getLatestNonce c (originDomain t)) (nonce t))]"
    and "nonceDidIncreaseForDomain st (originDomain t) = Some True"
    and "published (data st) = published c"
    by (auto simp: st_def trackNonce_def Let_def cur max_def)
  then show ?thesis
    by (simp add: storeTransfers_def body publishedBy_def)
qed

text \<open>
  Claim C2 asks that a call publishes \<open>NewHighestNonce\<close> only for a domain whose
  watermark rose. The code flags a domain as soon as it reads the watermark from the
  cache (line 98), so every domain that a call touches gets a message. Here the
  watermark of domain 1337 is 5; a call that stores a transfer with nonce 3 leaves it
  at 5 and still publishes a message for the domain.
\<close>

theorem lower_nonce_publishes_event:
  "getLatestNonce (storeAll emptyCache [[transferA_xcall]]) ''1337'' = 5
   \<and> getLatestNonce (storeTransfers (storeAll emptyCache [[transferA_xcall]]) [transferB_xcall]) ''1337'' = 5
   \<and> publishedBy (storeAll emptyCache [[transferA_xcall]])
        (storeTransfers (storeAll emptyCache [[transferA_xcall]]) [transferB_xcall])
     = [NewHighestNonce ''1337'' 5]"
  by (simp add: storeAll_simps store_xcall store_lower_nonce getLatestNonce_def publishedBy_def)

subsection \<open>Collating never drops a known sub-record\<close>

text \<open>
  Claim C6. Let \<open>r\<close> be the record stored under the id of an update \<open>u\<close>.
  After \<open>storeTransfers\<close> of the single update a record is stored under that id,
  and each of \<open>xcall\<close>, \<open>execute\<close> and \<open>reconcile\<close> that is present in
  \<open>r\<close> and null in \<open>u\<close> has kept the value it had in \<open>r\<close>.
\<close>

theorem merge_never_regresses:
  assumes "getTransfer c (transferId u) = Some r"
  shows "\<exists>r'. getTransfer (storeTransfers c [u]) (transferId u) = Some r'
     \<and> (xcall r \<noteq> None \<and> xcall u = None \<longrightarrow> xcall r' = xcall r)
     \<and> (execute r \<noteq> None \<and> execute u = None \<longrightarrow> execute r' = execute r)
     \<and> (reconcile r \<noteq> None \<and> reconcile u = None \<longrightarrow> reconcile r' = reconcile r)"
proof -
  have "transfers (storeTransfers c [u]) = transfers (storeOne c u)"
    by (simp add: storeTransfers_def Let_def data_storeTransfers_body)
  then have "getTransfer (storeTransfers c [u]) (transferId u) =
      Some (if r = u then r else collate r u)"
    using assms
    by (simp add: getTransfer_def storeOne_unfold transfers_persistTransfer)
  then show ?thesis
    by (auto simp: collate_def spreadField_def)
qed

text \<open>
  An instance: the stored record has its \<open>xcall\<close>, the update brings only
  \<open>execute\<close>; the \<open>xcall\<close> is still there afterwards.
\<close>

theorem merge_never_regresses_witness:
  "getTransfer pendingA (transferId transferA_execute) = Some transferA_xcall
   \<and> xcall transferA_xcall \<noteq> None \<and> xcall transferA_execute = None
   \<and> (\<exists>r'. getTransfer (storeTransfers pendingA [transferA_execute]) ''0xa1'' = Some r'
           \<and> xcall r' = tx ''0x01'')"
proof -
  have stored: "getTransfer pendingA (transferId transferA_execute) = Some transferA_xcall"
    by (simp add: getTransfer_def)
  show ?thesis
    using stored merge_never_regresses [OF stored] by simp
qed

subsection \<open>Storing the same update twice\<close>

lemma spreadField_idem: "spreadField (spreadField a b) b = spreadField a b"
  by (cases b) (simp_all add: spreadField_def)

lemma collate_idem: "collate (collate e t) t = collate e t"
  by (simp add: collate_def spreadField_idem)

lemma transfers_storeTransfers_single:
  "transfers (storeTransfers c [t]) = transfers (storeOne c t)"
  by (simp add: storeTransfers_def Let_def data_storeTransfers_body)

lemma pending_storeTransfers_single:
  "pending (storeTransfers c [t]) = pending (storeOne c t)"
  by (simp add: storeTransfers_def Let_def data_storeTransfers_body)

text \<open>Storing an update a second time leaves the stored records as they are.\<close>

lemma storeOne_twice_transfers: "transfers (storeOne (storeOne c t) t) = transfers (storeOne c t)"
proof (cases "transfers c (transferId t)")
  case None
  then show ?thesis by (simp add: storeOne_unfold transfers_persistTransfer)
next
  case (Some e)
  show ?thesis
  proof (cases "e = t \<or> collate e t = t")
    case True
    then show ?thesis using Some by (auto simp: storeOne_unfold transfers_persistTransfer)
  next
    case False
    then show ?thesis using Some
      by (simp add: storeOne_unfold transfers_persistTransfer collate_idem)
  qed
qed

lemma storeTransfers_twice_record:
  "getTransfer (storeTransfers (storeTransfers c [t]) [t]) T = getTransfer (storeTransfers c [t]) T"
proof -
  have "transfers (storeTransfers (storeTransfers c [t]) [t]) =
        transfers (storeOne (storeTransfers c [t]) t)"
    by (rule transfers_storeTransfers_single)
  also have "\<dots> = transfers (storeOne (storeOne c t) t)"
    by (simp add: storeOne_unfold transfers_storeTransfers_single transfers_persistTransfer)
  also have "\<dots> = transfers (storeOne c t)" by (rule storeOne_twice_transfers)
  also have "\<dots> = transfers (storeTransfers c [t])"
    by (simp add: transfers_storeTransfers_single)
  finally show ?thesis by (simp add: getTransfer_def)
qed

lemma pending_transfers_update [simp]: "pending (c\<lparr>transfers := m\<rparr>) = pending c"
  by simp

lemma removePending_absent:
  "t \<notin> set (getPending c d) \<Longrightarrow> snd (removePending c d t) = c"
  by (simp add: removePending_def Let_def)

lemma removePending_removes:
  "distinct (getPending c d) \<Longrightarrow> t \<notin> set (getPending (snd (removePending c d t)) d)"
  by (auto simp: removePending_def getPending_def Let_def split: option.splits)

lemma persistTransfer_stored:
  "transfers c (transferId m) \<noteq> None \<Longrightarrow>
   persistTransfer c m =
     (if hasHash (execute m) \<or> hasHash (reconcile m)
      then snd (removePending (c\<lparr>transfers := (transfers c)(transferId m \<mapsto> m)\<rparr>)
             (originDomain m) (transferId m))
      else c\<lparr>transfers := (transfers c)(transferId m \<mapsto> m)\<rparr>)"
  by (auto simp: persistTransfer_def Let_def)

text \<open>Nor does it change the pending index, when no list holds an id twice.\<close>

lemma storeOne_twice_pending:
  assumes "\<And>D. distinct (getPending c D)"
  shows "pending (storeOne (storeOne c t) t) = pending (storeOne c t)"
proof (cases "transfers (storeOne c t) (transferId t) = Some t")
  case True
  then show ?thesis by (subst storeOne_unfold) simp
next
  case False
  then obtain e where e: "transfers c (transferId t) = Some e" and ne: "e \<noteq> t"
    by (cases "transfers c (transferId t)")
       (auto simp: storeOne_unfold transfers_persistTransfer split: if_splits)
  define m where "m = collate e t"
  define c1 where "c1 = c\<lparr>transfers := (transfers c)(transferId t \<mapsto> m)\<rparr>"
  have first: "storeOne c t =
      (if hasHash (execute m) \<or> hasHash (reconcile m)
       then snd (removePending c1 (originDomain m) (transferId t)) else c1)"
    using e ne by (simp add: storeOne_unfold persistTransfer_stored m_def c1_def)
  have stored: "transfers (storeOne c t) (transferId t) = Some m"
    by (simp add: first c1_def)
  have second: "storeOne (storeOne c t) t = persistTransfer (storeOne c t) m"
    using False stored by (simp add: storeOne_unfold m_def collate_idem)
  have tid: "transferId m = transferId t" by (simp add: m_def)
  show ?thesis
  proof (cases "hasHash (execute m) \<or> hasHash (reconcile m)")
    case True
    let ?c' = "snd (removePending c1 (originDomain m) (transferId t))"
    have c': "storeOne c t = ?c'" using True by (simp add: first)
    have "distinct (getPending c1 (originDomain m))" using assms by (simp add: c1_def)
    then have gone: "transferId t \<notin> set (getPending ?c' (originDomain m))"
      by (rule removePending_removes)
    have "persistTransfer ?c' m =
        snd (removePending (?c'\<lparr>transfers := (transfers ?c')(transferId t \<mapsto> m)\<rparr>)
          (originDomain m) (transferId t))"
      using True stored by (simp add: persistTransfer_stored tid c' [symmetric])
    also have "\<dots> = ?c'\<lparr>transfers := (transfers ?c')(transferId t \<mapsto> m)\<rparr>"
      using gone by (simp add: removePending_absent)
    finally have "persistTransfer ?c' m = ?c'\<lparr>transfers := (transfers ?c')(transferId t \<mapsto> m)\<rparr>" .
    moreover have "storeOne (storeOne c t) t = persistTransfer ?c' m"
      using second c' by simp
    ultimately show ?thesis by (simp add: c')
  next
    case False
    then have c1: "storeOne c t = c1" by (simp add: first)
    have "persistTransfer c1 m = c1\<lparr>transfers := (transfers c1)(transferId t \<mapsto> m)\<rparr>"
      using False by (simp add: persistTransfer_stored tid c1_def)
    moreover have "storeOne (storeOne c t) t = persistTransfer c1 m"
      using second c1 by simp
    ultimately show ?thesis by (simp add: c1)
  qed
qed

lemma pending_addPending_cong:
  assumes "pending c' = pending c''"
  shows "pending (addPending c' d t) = pending (addPending c'' d t)"
proof -
  have "getPending c' d = getPending c'' d" using assms by (simp add: getPending_def)
  then show ?thesis using assms by (simp add: addPending_def Let_def)
qed

lemma pending_removePending_cong:
  assumes "pending c' = pending c''"
  shows "pending (snd (removePending c' d t)) = pending (snd (removePending c'' d t))"
proof -
  have "getPending c' d = getPending c'' d" using assms by (simp add: getPending_def)
  then show ?thesis using assms by (simp add: removePending_def Let_def)
qed

lemma pending_persistTransfer_cong:
  assumes "transfers c' = transfers c''" and "pending c' = pending c''"
  shows "pending (persistTransfer c' m) = pending (persistTransfer c'' m)"
proof -
  have add: "pending (addPending (c'\<lparr>transfers := x\<rparr>) d t)
      = pending (addPending (c''\<lparr>transfers := x\<rparr>) d t)" for x d t
    using assms(2) by (intro pending_addPending_cong) simp
  have remove: "pending (snd (removePending (c'\<lparr>transfers := x\<rparr>) d t))
      = pending (snd (removePending (c''\<lparr>transfers := x\<rparr>) d t))" for x d t
    using assms(2) by (intro pending_removePending_cong) simp
  show ?thesis
    unfolding persistTransfer_def Let_def assms(1)
    by (simp add: add remove assms(2))
qed

lemma pending_storeOne_cong:
  assumes "transfers c' = transfers c''" and "pending c' = pending c''"
  shows "pending (storeOne c' t) = pending (storeOne c'' t)"
proof -
  have "pending (persistTransfer c' m) = pending (persistTransfer c'' m)" for m
    using assms by (rule pending_persistTransfer_cong)
  then show ?thesis using assms by (simp add: storeOne_unfold)
qed

lemma storeTransfers_twice_pending:
  assumes "\<And>D. distinct (getPending c D)"
  shows "getPending (storeTransfers (storeTransfers c [t]) [t]) D
           = getPending (storeTransfers c [t]) D"
proof -
  have "pending (storeTransfers (storeTransfers c [t]) [t]) =
        pending (storeOne (storeTransfers c [t]) t)"
    by (rule pending_storeTransfers_single)
  also have "\<dots> = pending (storeOne (storeOne c t) t)"
    by (rule pending_storeOne_cong)
       (simp_all add: transfers_storeTransfers_single pending_storeTransfers_single)
  also have "\<dots> = pending (storeOne c t)" using assms by (rule storeOne_twice_pending)
  also have "\<dots> = pending (storeTransfers c [t])"
    by (simp add: pending_storeTransfers_single)
  finally show ?thesis by (simp add: getPending_def)
qed

text \<open>
  Claim C7 asks that the second of two equal calls changes nothing and publishes
  nothing. The stored record and the pending index are indeed the same after the
  second call. But when the update differs from the collated record, the second call
  is not skipped, and by the flag of line 98 it publishes \<open>NewHighestNonce\<close>
  once more: here the stored record has its \<open>xcall\<close> and the update brings only
  \<open>execute\<close>.
\<close>

theorem repeated_merge_publishes_again:
  "getTransfer (storeAll emptyCache [[transferA_xcall], [transferA_execute], [transferA_execute]]) ''0xa1''
     = getTransfer (storeAll emptyCache [[transferA_xcall], [transferA_execute]]) ''0xa1''
   \<and> getPending (storeAll emptyCache [[transferA_xcall], [transferA_execute], [transferA_execute]]) ''1337''
     = getPending (storeAll emptyCache [[transferA_xcall], [transferA_execute]]) ''1337''
   \<and> publishedBy (storeAll emptyCache [[transferA_xcall], [transferA_execute]])
        (storeTransfers (storeAll emptyCache [[transferA_xcall], [transferA_execute]]) [transferA_execute])
     = [NewHighestNonce ''1337'' 5]"
  by (simp add: storeAll_simps store_xcall store_execute store_execute_again
        getTransfer_def getPending_def publishedBy_def)

subsection \<open>The error ledger\<close>

lemma stringifyString_length: "length s < length (stringifyString s)"
proof -
  have "length s \<le> length (concat (map quoteJSONChar s))"
    by (induction s) (auto simp: quoteJSONChar_def Let_def)
  then show ?thesis by (simp add: stringifyString_def)
qed

lemma stringifyString_neq: "stringifyString s \<noteq> s"
  using stringifyString_length [of s] by auto

text \<open>
  The test for a known error compares the stringified message, which is in quotes,
  with the stored messages, which are not: saving a message that was just saved
  answers as the first call did.
\<close>

lemma saveError_again: "fst (saveError (snd (saveError c t e)) t e) = fst (saveError c t e)"
  by (auto simp: saveError_def Let_def getErrors_def stringifyString_neq)

text \<open>
  Claim C3 asks that the second \<open>saveError\<close> of the same message returns false
  and that the message is stored once. On the empty ledger both calls return true and
  the message is stored twice.
\<close>

theorem saveError_twice_both_new:
  "fst (saveError emptyCache ''0xa1'' ''X'') = True
   \<and> fst (saveError (snd (saveError emptyCache ''0xa1'' ''X'')) ''0xa1'' ''X'') = True
   \<and> getErrors (snd (saveError (snd (saveError emptyCache ''0xa1'' ''X'')) ''0xa1'' ''X'')) ''0xa1''
       = [''X'', ''X'']"
  by (simp add: saveError_def Let_def getErrors_def emptyCache_def stringifyString_def)

section \<open>Properties of the root manager and the connectors\<close>

subsection \<open>propagate\<close>

lemma propagate_loop_outboundRoots:
  "propagate_loop (s\<lparr>outboundRoots := r\<rparr>) aggregate i calls = propagate_loop s aggregate i calls"
proof (induction s aggregate i calls rule: propagate_loop.induct)
  case (1 s aggregate i calls)
  show ?case
    using "1.IH"
    by (subst propagate_loop.simps, subst (2) propagate_loop.simps) (auto simp: Let_def)
qed

text \<open>
  The aggregate is the root of the first domain of the list alone: the root of any
  other domain has no effect on what \<open>propagate\<close> does.
\<close>

lemma propagate_other_root:
  "domains s \<noteq> [] \<Longrightarrow> d \<noteq> domains s ! 0 \<Longrightarrow>
   propagate (s\<lparr>outboundRoots := (outboundRoots s)(d := r)\<rparr>) = propagate s"
  by (simp add: propagate_def propagate_loop_outboundRoots)

lemma propagate_loop_calls:
  "i \<le> length (domains s) \<Longrightarrow> length (domains s) \<le> 255 \<Longrightarrow>
   propagate_loop s aggregate i calls =
     Inr (calls @ map (\<lambda>d. PropagateRoot (connectors s d) aggregate)
                    (filter (\<lambda>d. connectors s d \<noteq> 0) (drop i (domains s))))"
proof (induction s aggregate i calls rule: propagate_loop.induct)
  case (1 s aggregate i calls)
  show ?case
  proof (cases "i < length (domains s)")
    case True
    then have d: "drop i (domains s) = domains s ! i # drop (Suc i) (domains s)"
      by (simp add: Cons_nth_drop_Suc)
    from True "1.prems" have small: "\<not> 255 \<le> i" by simp
    show ?thesis
      using True small "1.IH" "1.prems"
      by (subst propagate_loop.simps) (auto simp: Let_def d)
  next
    case False
    then show ?thesis using "1.prems" by (subst propagate_loop.simps) simp
  qed
qed

text \<open>What \<open>propagate\<close> does on a list of 1 to 255 domains: every connector that is
  not the zero address is called, in the order of the list, with the packed root of
  the first domain.\<close>

lemma propagate_calls:
  assumes "domains s \<noteq> []" and "length (domains s) \<le> 255"
  shows "propagate s =
     Inr (map (\<lambda>d. PropagateRoot (connectors s d) (encodePacked (outboundRoots s (domains s ! 0))))
            (filter (\<lambda>d. connectors s d \<noteq> 0) (domains s)))"
  using assms by (simp add: propagate_def propagate_loop_calls)

text \<open>
  Claim C4 asks that the aggregate depends on the outbound roots of all registered
  domains. With domains 1 and 2 registered, each connector is called with the same
  aggregate, but the aggregate is the root of domain 1 whatever the root of domain 2 is.
\<close>

theorem propagate_ignores_other_roots:
  "propagate (hub ((\<lambda>_. 0)(1 := 0xC1, 2 := 0xC2)) ((\<lambda>_. 0)(1 := 0x11, 2 := 0x22)) [1, 2])
     = Inr [PropagateRoot 0xC1 (encodePacked 0x11), PropagateRoot 0xC2 (encodePacked 0x11)]
   \<and> propagate (hub ((\<lambda>_. 0)(1 := 0xC1, 2 := 0xC2)) ((\<lambda>_. 0)(1 := 0x11, 2 := 0x33)) [1, 2])
     = Inr [PropagateRoot 0xC1 (encodePacked 0x11), PropagateRoot 0xC2 (encodePacked 0x11)]"
  by (simp add: propagate_def propagate_loop.simps Let_def)

subsection \<open>addConnector\<close>

text \<open>
  Claim C5 asks that a domain is listed at most once. \<open>addConnector\<close> pushes
  the domain whether or not it is listed: after the owner binds domain 7 to one
  connector and then to another, the list holds 7 twice, and the binding is the
  second connector.
\<close>

theorem addConnector_twice_duplicates:
  "fst (transact (\<lambda>s. addConnector s 1 7 0xC1) (RootManager_constructor 1)) = None
   \<and> fst (transact (\<lambda>s. addConnector s 1 7 0xC2)
           (snd (transact (\<lambda>s. addConnector s 1 7 0xC1) (RootManager_constructor 1)))) = None
   \<and> domains (snd (transact (\<lambda>s. addConnector s 1 7 0xC2)
           (snd (transact (\<lambda>s. addConnector s 1 7 0xC1) (RootManager_constructor 1))))) = [7, 7]
   \<and> connectors (snd (transact (\<lambda>s. addConnector s 1 7 0xC2)
           (snd (transact (\<lambda>s. addConnector s 1 7 0xC1) (RootManager_constructor 1))))) 7 = 0xC2"
  by (simp add: transact_def addConnector_def onlyOwner_def RootManager_constructor_def)

subsection \<open>Calls without authority\<close>

text \<open>
  Claim C8. In every state, \<open>setOutboundRoot\<close> from a caller that is not the
  connector of the domain reverts with \<open>!connector\<close>, \<open>removeConnector\<close> from
  a caller that is not a watcher reverts with \<open>!watcher\<close>, and the storage of the
  contract after the transaction is the storage before it.
\<close>

theorem unauthorized_calls_revert:
  "(connectors s domain \<noteq> sender \<longrightarrow>
      transact (\<lambda>s'. setOutboundRoot s' sender domain outbound) s = (Some (Require ''!connector''), s))
   \<and> (\<not> watchers s sender \<longrightarrow>
      transact (\<lambda>s'. removeConnector s' sender domain) s = (Some (Require ''!watcher''), s))"
  by (simp add: transact_def setOutboundRoot_def removeConnector_def onlyConnector_def onlyWatcher_def)

text \<open>
  An instance: account 5 is neither the connector of domain 7 nor a watcher.
\<close>

theorem unauthorized_calls_revert_witness:
  "connectors (hub ((\<lambda>_. 0)(7 := 0xC1)) (\<lambda>_. 0) [7]) 7 \<noteq> 5
   \<and> \<not> watchers (hub ((\<lambda>_. 0)(7 := 0xC1)) (\<lambda>_. 0) [7]) 5
   \<and> transact (\<lambda>s'. setOutboundRoot s' 5 7 0xAB) (hub ((\<lambda>_. 0)(7 := 0xC1)) (\<lambda>_. 0) [7])
     = (Some (Require ''!connector''), hub ((\<lambda>_. 0)(7 := 0xC1)) (\<lambda>_. 0) [7])
   \<and> transact (\<lambda>s'. removeConnector s' 5 7) (hub ((\<lambda>_. 0)(7 := 0xC1)) (\<lambda>_. 0) [7])
     = (Some (Require ''!watcher''), hub ((\<lambda>_. 0)(7 := 0xC1)) (\<lambda>_. 0) [7])"
  using unauthorized_calls_revert [of "hub ((\<lambda>_. 0)(7 := 0xC1)) (\<lambda>_. 0) [7]" 7 5 "0xAB"]
  by simp

subsection \<open>Messages the bridge does not vouch for\<close>

text \<open>
  Claim C9. When the sender that the bridge reports is not the mirror connector, or
  the destination chain is not this chain, or the source chain is not the expected one
  (1 on the spoke, 100 on the hub), the message handler reverts: the spoke keeps its
  storage, aggregate root included, and on the hub the storage of the root manager is
  as before, so no outbound root was set.
\<close>

theorem gnosis_unverified_message_reverts:
  "(messageSender (bridge env) \<noteq> mirrorConnector c
      \<or> destinationChainId (bridge env) \<noteq> block_chainid env
      \<or> sourceChainId (bridge env) \<noteq> 1
    \<longrightarrow> (\<exists>e. GnosisL2_processMessage c env payload = Inl e)
        \<and> snd (transact (\<lambda>c'. GnosisL2_processMessage c' env payload) c) = c)
   \<and> (messageSender (bridge env) \<noteq> mirrorConnector c
      \<or> destinationChainId (bridge env) \<noteq> block_chainid env
      \<or> sourceChainId (bridge env) \<noteq> 100
    \<longrightarrow> (\<exists>e. GnosisL1_processMessage c rm env payload = Inl e)
        \<and> snd (transact (\<lambda>rm'. GnosisL1_processMessage c rm' env payload) rm) = rm)"
  by (auto simp: GnosisL2_processMessage_def GnosisL1_processMessage_def verifySender_def
        transact_def split: sum.splits)

text \<open>
  An instance: the bridge delivers a message whose sender is not the mirror connector.
\<close>

theorem gnosis_unverified_message_reverts_witness:
  "messageSender (bridge forged_delivery) \<noteq> mirrorConnector spoke
   \<and> (\<exists>e. GnosisL2_processMessage spoke forged_delivery (encodePacked 0x22) = Inl e)
   \<and> aggregateRoot (snd (transact (\<lambda>c'. GnosisL2_processMessage c' forged_delivery (encodePacked 0x22))
        spoke)) = 0x11
   \<and> (\<exists>e. GnosisL1_processMessage spoke (hub ((\<lambda>_. 0)(7 := 0xC2)) (\<lambda>_. 0) [7]) forged_delivery
          (encodePacked 0x22) = Inl e)
   \<and> outboundRoots (snd (transact
        (\<lambda>rm'. GnosisL1_processMessage spoke rm' forged_delivery (encodePacked 0x22))
        (hub ((\<lambda>_. 0)(7 := 0xC2)) (\<lambda>_. 0) [7]))) 7 = 0"
  using gnosis_unverified_message_reverts
    [of forged_delivery spoke "encodePacked 0x22" "hub ((\<lambda>_. 0)(7 := 0xC2)) (\<lambda>_. 0) [7]"]
  by simp

subsection \<open>removeConnector on a domain that is not listed\<close>

lemma removeConnector_loop_absent:
  "domain \<notin> set ds \<Longrightarrow> i \<le> length ds \<Longrightarrow> i \<le> 255 \<Longrightarrow>
   removeConnector_loop domain l ds i = (if length ds \<le> 255 then Inr ds else Inl (Panic 0x11))"
proof (induction domain l ds i rule: removeConnector_loop.induct)
  case (1 domain l ds i)
  show ?case
  proof (cases "i < length ds")
    case True
    then have ne: "ds ! i \<noteq> domain" using "1.prems"(1) by (metis nth_mem)
    show ?thesis
    proof (cases "255 \<le> i")
      case True
      with \<open>i < length ds\<close> ne show ?thesis by (subst removeConnector_loop.simps) auto
    next
      case False
      with \<open>i < length ds\<close> ne "1.IH" "1.prems" show ?thesis
        by (subst removeConnector_loop.simps) auto
    qed
  next
    case False
    with "1.prems" show ?thesis by (subst removeConnector_loop.simps) auto
  qed
qed

text \<open>
  Claim C10, as the code has it. When the list of domains is not empty, has at most
  255 entries and does not hold the domain, a watcher's \<open>removeConnector\<close> does
  not revert: it clears the binding of the domain and drops the last entry of the list.
\<close>

theorem removeConnector_absent_domain:
  assumes "watchers s sender" and "domains s \<noteq> []" and "length (domains s) \<le> 255"
    and "domain \<notin> set (domains s)"
  shows "removeConnector s sender domain =
           Inr (s\<lparr>connectors := (connectors s)(domain := 0),
                  domains := butlast (domains s),
                  emitted := emitted s @ [ConnectorRemoved domain (connectors s domain)]\<rparr>)"
  using assms
  by (simp add: removeConnector_def onlyWatcher_def Let_def removeConnector_loop_absent)

text \<open>
  An instance: domains 1 and 2 are listed and the watcher removes domain 5; domain 2
  is gone from the list.
\<close>

theorem removeConnector_absent_domain_witness:
  "watchers (hub (\<lambda>_. 0) (\<lambda>_. 0) [1, 2]) 9
   \<and> 5 \<notin> set (domains (hub (\<lambda>_. 0) (\<lambda>_. 0) [1, 2]))
   \<and> removeConnector (hub (\<lambda>_. 0) (\<lambda>_. 0) [1, 2]) 9 5 =
       Inr \<lparr>owner = 1, connectors = (\<lambda>_. 0)(5 := 0), outboundRoots = (\<lambda>_. 0), domains = [1],
            watchers = (\<lambda>a. a = 9), emitted = [ConnectorRemoved 5 0]\<rparr>"
  using removeConnector_absent_domain [of "hub (\<lambda>_. 0) (\<lambda>_. 0) [1, 2]" 9 5]
  by simp

text \<open>
  The bound is needed, so claim C10 as it is written fails: the loop counter is a
  \<open>uint8\<close>, and with 256 entries, none of them the domain, its increment at 255
  overflows and the call reverts.
\<close>

theorem removeConnector_256_domains_reverts:
  "watchers (hub (\<lambda>_. 0) (\<lambda>_. 0) (replicate 256 1)) 9
   \<and> domains (hub (\<lambda>_. 0) (\<lambda>_. 0) (replicate 256 1)) \<noteq> []
   \<and> 2 \<notin> set (domains (hub (\<lambda>_. 0) (\<lambda>_. 0) (replicate 256 1)))
   \<and> removeConnector (hub (\<lambda>_. 0) (\<lambda>_. 0) (replicate 256 1)) 9 2 = Inl (Panic 0x11)"
proof -
  define ds :: "uint32 list" where "ds = replicate 256 1"
  have len: "length ds = 256" and ne: "ds \<noteq> []" and absent: "2 \<notin> set ds"
    by (auto simp: ds_def)
  have "removeConnector_loop 2 l ds 0 = Inl (Panic 0x11)" for l
    using removeConnector_loop_absent [OF absent, of 0 l] len by simp
  then show ?thesis
    unfolding ds_def [symmetric] removeConnector_def onlyWatcher_def
    using ne absent by (simp add: Let_def)
qed

end
